theory Spec2Isabelle
  imports Main "HOL-Library.Word"
begin

section \<open>Compound options of wf-config: \<^verbatim>\<open>compound-option.hpp\<close>\<close>

text \<open>
  The header \<^verbatim>\<open>include/wayfire/config/compound-option.hpp\<close> defines the tuple helpers
  \<^verbatim>\<open>pop_first\<close> and \<^verbatim>\<open>push_first\<close>, the column descriptor
  \<^verbatim>\<open>compound_option_entry_t<Type>\<close> and the class \<^verbatim>\<open>compound_option_t\<close> with its typed
  accessors (\<^verbatim>\<open>get_value\<close>, \<^verbatim>\<open>get_value_simple\<close>, \<^verbatim>\<open>set_value\<close>, \<^verbatim>\<open>set_value_simple\<close>,
  \<^verbatim>\<open>build_recursive\<close>, \<^verbatim>\<open>push_recursive\<close>). The untyped accessors, the constructor and
  \<^verbatim>\<open>reset_to_default\<close> are only declared there.
\<close>

subsection \<open>Errors\<close>

text \<open>
  The three ways in which the header's code stops instead of returning:
  \<^item> \<^verbatim>\<open>assert(sizeof...(Args) == this->entries.size())\<close> fails and aborts (the header
    includes \<^verbatim>\<open><cassert>\<close>; the model takes assertions as enabled, that is, no
    \<^verbatim>\<open>NDEBUG\<close>);
  \<^item> \<^verbatim>\<open>std::optional::value()\<close> on an empty optional throws
    \<^verbatim>\<open>std::bad_optional_access\<close>;
  \<^item> \<^verbatim>\<open>operator[]\<close> of a vector is used past its end, which C++ leaves undefined; the
    model makes it an outcome of its own so that no theorem can rest on it.
\<close>

datatype error = AssertionFailed | BadOptionalAccess | OutOfRange

subsection \<open>Semantic types\<close>

text \<open>
  \<^verbatim>\<open>option_type::from_string<T>\<close> and \<^verbatim>\<open>option_type::to_string<T>\<close> are declared in
  \<^verbatim>\<open>wayfire/config/types.hpp\<close>, which is not among the sources, so a semantic type \<open>T\<close>
  is a parameter: its parser, its printer and the value \<open>T()\<close> that
  \<^verbatim>\<open>std::vector::resize\<close> puts into a fresh tuple. The values of all the types of one
  type list live in one universe \<open>'v\<close>.
\<close>

record 'v option_type =
  from_string :: "string \<Rightarrow> 'v option"
  to_string :: "'v \<Rightarrow> string"
  value_init :: "'v"

text \<open>
  Modelled from the spec: \<^verbatim>\<open>from_string<std::string>\<close> and
  \<^verbatim>\<open>to_string<std::string>\<close> (\<^verbatim>\<open>types.hpp\<close>, not among the sources), which the typed
  accessors use for component 0 of a tuple. The spec takes the identifier cell as free
  text: every text is an identifier and the identifier is stored as it is.
\<close>

definition from_string_string :: "string \<Rightarrow> string option" where
  "from_string_string s = Some s"

definition to_string_string :: "string \<Rightarrow> string" where
  "to_string_string s = s"

subsection \<open>Tuples: \<^verbatim>\<open>pop_first\<close> and \<^verbatim>\<open>push_first\<close>\<close>

text \<open>
  A \<^verbatim>\<open>std::tuple<T1, Ts...>\<close> is a pair of its first component and the tuple of the
  others. \<^verbatim>\<open>pop_first\<close> applies a lambda that ignores the first component and ties the
  others; \<^verbatim>\<open>push_first\<close> concatenates the one-component tuple of \<open>t\<close> with the tuple.
\<close>

definition pop_first :: "'a \<times> 'b \<Rightarrow> 'b" where
  "pop_first tuple = (case tuple of (_, args) \<Rightarrow> args)"

definition push_first :: "'a \<Rightarrow> 'b \<Rightarrow> 'a \<times> 'b" where
  "push_first t tuple = (t, tuple)"

text \<open>
  An element of \<^verbatim>\<open>compound_list_t<Args...>\<close> is a \<^verbatim>\<open>std::tuple<std::string, Args...>\<close>:
  the identifier and one value per type of \<open>Args\<close>; an element of
  \<^verbatim>\<open>simple_list_t<Args...>\<close> is the \<^verbatim>\<open>std::tuple<Args...>\<close> alone. The C++ type fixes
  the number of components; in the model it is the predicate \<open>typed\<close>.
\<close>

type_synonym 'v simple_tuple = "'v list"
type_synonym 'v compound_tuple = "string \<times> 'v list"


subsection \<open>Column descriptors\<close>

record 'v compound_option_entry =
  prefix :: string
  name :: string
  entry_type :: "'v option_type"

definition get_prefix :: "'v compound_option_entry \<Rightarrow> string" where
  "get_prefix e = prefix e"

definition get_name :: "'v compound_option_entry \<Rightarrow> string" where
  "get_name e = name e"

definition is_parsable :: "'v compound_option_entry \<Rightarrow> string \<Rightarrow> bool" where
  "is_parsable e str = (from_string (entry_type e) str \<noteq> None)"

definition clone :: "'v compound_option_entry \<Rightarrow> 'v compound_option_entry" where
  "clone e = \<lparr>prefix = get_prefix e, name = get_name e, entry_type = entry_type e\<rparr>"

subsection \<open>The compound option\<close>

text \<open>
  The private fields of \<^verbatim>\<open>compound_option_t\<close>: \<^verbatim>\<open>value\<close> (here \<open>stored\<close>), a vector of
  rows of strings, \<^verbatim>\<open>entries\<close> and \<^verbatim>\<open>list_type_hint\<close>. Two fields stand for what the base
  class \<^verbatim>\<open>option_base_t\<close> (\<^verbatim>\<open>option.hpp\<close>, not among the sources) keeps:

  Modelled from the spec: \<open>default_value\<close> is the "separately tracked default" of the
  spec's generic option contract, and \<open>updates\<close> counts the change notifications sent
  to the observers, one per call of \<^verbatim>\<open>notify_updated\<close>.
\<close>

type_synonym stored_type_t = "string list list"

record 'v compound_option =
  option_name :: string
  entries :: "'v compound_option_entry list"
  stored :: stored_type_t
  list_type_hint :: string
  default_value :: stored_type_t
  updates :: nat

definition notify_updated :: "'v compound_option \<Rightarrow> 'v compound_option" where
  "notify_updated opt = opt\<lparr>updates := Suc (updates opt)\<rparr>"

definition get_type_hint :: "'v compound_option \<Rightarrow> string" where
  "get_type_hint opt = list_type_hint opt"

subsection \<open>Loops\<close>

text \<open>
  \<^verbatim>\<open>for (size_t i = 0; i < n; i++) body\<close> is \<open>for_each [0..<n] body\<close>: the body runs
  for each index in turn on the state the previous run left, and the first error ends
  the loop.
\<close>

fun for_each :: "nat list \<Rightarrow> (nat \<Rightarrow> 's \<Rightarrow> error + 's) \<Rightarrow> 's \<Rightarrow> error + 's" where
  "for_each [] body st = Inr st"
| "for_each (i # is) body st =
     (case body i st of Inl e \<Rightarrow> Inl e | Inr st' \<Rightarrow> for_each is body st')"

subsection \<open>The typed getter: \<^verbatim>\<open>get_value\<close> and \<^verbatim>\<open>build_recursive\<close>\<close>

text \<open>
  The body of the loop of \<^verbatim>\<open>build_recursive<n, Args...>\<close>:
  \<^verbatim>\<open>std::get<n>(result[i]) = option_type::from_string<type_t>(this->value[i][n]).value()\<close>,
  where \<^verbatim>\<open>type_t\<close> is \<^verbatim>\<open>std::string\<close> for \<open>n = 0\<close> and \<open>Args[n - 1]\<close> otherwise. The
  vectors are indexed with \<^verbatim>\<open>operator[]\<close>, which checks nothing.
\<close>

definition build_entry ::
  "nat \<Rightarrow> 'v option_type list \<Rightarrow> stored_type_t \<Rightarrow> nat \<Rightarrow> 'v compound_tuple list
    \<Rightarrow> error + 'v compound_tuple list" where
  "build_entry n Args val i result =
     (if i < length result \<and> i < length val \<and> n < length (val ! i) then
        (if n = 0 then
           (case from_string_string (val ! i ! n) of
              None \<Rightarrow> Inl BadOptionalAccess
            | Some s \<Rightarrow> Inr (result[i := (s, snd (result ! i))]))
         else
           (case from_string (Args ! (n - 1)) (val ! i ! n) of
              None \<Rightarrow> Inl BadOptionalAccess
            | Some v \<Rightarrow>
                Inr (result[i := (fst (result ! i), (snd (result ! i))[n - 1 := v])])))
      else Inl OutOfRange)"

function build_recursive ::
  "nat \<Rightarrow> 'v option_type list \<Rightarrow> stored_type_t \<Rightarrow> 'v compound_tuple list
    \<Rightarrow> error + 'v compound_tuple list" where
  "build_recursive n Args val result =
     (case for_each [0..<length result] (build_entry n Args val) result of
        Inl e \<Rightarrow> Inl e
      | Inr result' \<Rightarrow>
          if n < length Args then build_recursive (n + 1) Args val result'
          else Inr result')"
  by pat_completeness auto
termination
  by (relation "measure (\<lambda>(n, Args, val, result). length Args - n)") auto

text \<open>
  \<^verbatim>\<open>get_value<Args...>\<close>: \<^verbatim>\<open>result.resize(value.size())\<close> makes one value-initialised
  tuple per stored row (the empty string and \<open>T()\<close> for each type), then
  \<^verbatim>\<open>build_recursive<0, Args...>(result)\<close> fills it. There is no check of
  \<^verbatim>\<open>sizeof...(Args)\<close> against \<^verbatim>\<open>entries.size()\<close> here.
\<close>

definition get_value ::
  "'v option_type list \<Rightarrow> 'v compound_option \<Rightarrow> error + 'v compound_tuple list" where
  "get_value Args opt =
     build_recursive 0 Args (stored opt)
       (replicate (length (stored opt)) ([], map value_init Args))"

text \<open>
  \<^verbatim>\<open>get_value_simple<Args...>\<close>: the loop
  \<^verbatim>\<open>for (const auto& val : list) result.push_back(pop_first(val))\<close> over the list that
  \<^verbatim>\<open>get_value<Args...>()\<close> returned.
\<close>

fun pop_each :: "'v compound_tuple list \<Rightarrow> 'v simple_tuple list \<Rightarrow> 'v simple_tuple list" where
  "pop_each [] result = result"
| "pop_each (val # list) result = pop_each list (result @ [pop_first val])"

definition get_value_simple ::
  "'v option_type list \<Rightarrow> 'v compound_option \<Rightarrow> error + 'v simple_tuple list" where
  "get_value_simple Args opt =
     (case get_value Args opt of
        Inl e \<Rightarrow> Inl e
      | Inr list \<Rightarrow> Inr (pop_each list []))"

subsection \<open>The typed setter: \<^verbatim>\<open>set_value\<close> and \<^verbatim>\<open>push_recursive\<close>\<close>

text \<open>
  The body of the loop of \<^verbatim>\<open>push_recursive<n>\<close>:
  \<^verbatim>\<open>this->value[i].push_back(option_type::to_string<type_t>(std::get<n>(new_value[i])))\<close>.
  \<^verbatim>\<open>std::get<n>\<close> of a tuple of the list's type always exists (see \<open>typed\<close>).
\<close>

definition component_to_string :: "nat \<Rightarrow> 'v option_type list \<Rightarrow> 'v compound_tuple \<Rightarrow> string" where
  "component_to_string n Args t =
     (if n = 0 then to_string_string (fst t)
      else to_string (Args ! (n - 1)) (snd t ! (n - 1)))"

definition push_entry ::
  "nat \<Rightarrow> 'v option_type list \<Rightarrow> 'v compound_tuple list \<Rightarrow> nat \<Rightarrow> stored_type_t
    \<Rightarrow> error + stored_type_t" where
  "push_entry n Args new_value i val =
     (if i < length new_value \<and> i < length val then
        Inr (val[i := val ! i @ [component_to_string n Args (new_value ! i)]])
      else Inl OutOfRange)"

function push_recursive ::
  "nat \<Rightarrow> 'v option_type list \<Rightarrow> 'v compound_tuple list \<Rightarrow> stored_type_t
    \<Rightarrow> error + stored_type_t" where
  "push_recursive n Args new_value val =
     (case for_each [0..<length new_value] (push_entry n Args new_value) val of
        Inl e \<Rightarrow> Inl e
      | Inr val' \<Rightarrow>
          if n < length Args then push_recursive (n + 1) Args new_value val'
          else Inr val')"
  by pat_completeness auto
termination
  by (relation "measure (\<lambda>(n, Args, new_value, val). length Args - n)") auto

text \<open>
  \<^verbatim>\<open>set_value<Args...>\<close>: the assertion, then
  \<^verbatim>\<open>this->value.assign(value.size(), {})\<close> (one empty row per tuple),
  \<^verbatim>\<open>push_recursive<0>(value)\<close> and \<^verbatim>\<open>notify_updated()\<close>. A failed assertion aborts the
  program: no option is left to observe.
\<close>

definition set_value ::
  "'v option_type list \<Rightarrow> 'v compound_tuple list \<Rightarrow> 'v compound_option
    \<Rightarrow> error + 'v compound_option" where
  "set_value Args new_value opt =
     (if length Args \<noteq> length (entries opt) then Inl AssertionFailed
      else
        (case push_recursive 0 Args new_value (replicate (length new_value) []) of
           Inl e \<Rightarrow> Inl e
         | Inr val \<Rightarrow> Inr (notify_updated (opt\<lparr>stored := val\<rparr>))))"

subsection \<open>\<^verbatim>\<open>set_value_simple\<close>\<close>

text \<open>
  \<^verbatim>\<open>std::to_string(int)\<close> of the C++ library prints the decimal digits, after a minus
  sign for a negative number.
\<close>

definition digit_char :: "nat \<Rightarrow> char" where
  "digit_char d = char_of (48 + d)"

function digits :: "nat \<Rightarrow> string" where
  "digits n = (if n < 10 then [digit_char n] else digits (n div 10) @ [digit_char (n mod 10)])"
  by pat_completeness auto
termination
  by (relation "measure (\<lambda>n. n)") auto

definition std_to_string :: "int \<Rightarrow> string" where
  "std_to_string i = (if i < 0 then CHR ''-'' # digits (nat (- i)) else digits (nat i))"

text \<open>
  \<^verbatim>\<open>(int)value.size()\<close>: the \<^verbatim>\<open>size_t\<close> is converted to a 32-bit \<^verbatim>\<open>int\<close>, which keeps
  the low 32 bits and reads them as two's complement.
\<close>

definition int_of_size :: "nat \<Rightarrow> int" where
  "int_of_size n = sint (word_of_nat n :: 32 word)"

text \<open>
  The loop \<^verbatim>\<open>for (int i = 0; i < (int)value.size(); i++)\<close> with the body
  \<^verbatim>\<open>list.push_back(push_first(std::to_string(i), value[i]))\<close>. The counter stays below
  \<^verbatim>\<open>(int)value.size()\<close>, so \<^verbatim>\<open>i++\<close> never overflows.
\<close>

function number_tuples ::
  "int \<Rightarrow> 'v simple_tuple list \<Rightarrow> 'v compound_tuple list \<Rightarrow> 'v compound_tuple list" where
  "number_tuples i val list =
     (if i < int_of_size (length val)
      then number_tuples (i + 1) val (list @ [push_first (std_to_string i) (val ! nat i)])
      else list)"
  by pat_completeness auto
termination
  by (relation "measure (\<lambda>(i, val, list). nat (int_of_size (length val) - i))") auto

definition set_value_simple ::
  "'v option_type list \<Rightarrow> 'v simple_tuple list \<Rightarrow> 'v compound_option
    \<Rightarrow> error + 'v compound_option" where
  "set_value_simple Args val opt = set_value Args (number_tuples 0 val []) opt"

subsection \<open>The operations that the header only declares\<close>

text \<open>
  Modelled from the spec: the constructor
  \<^verbatim>\<open>compound_option_t(name, entries, type_hint)\<close>, defined outside the header. The spec:
  the schema, the name and the type hint are fixed at construction, and the value starts
  empty. No default has been set and no notification sent.
\<close>

definition compound_option_t ::
  "string \<Rightarrow> 'v compound_option_entry list \<Rightarrow> string \<Rightarrow> 'v compound_option" where
  "compound_option_t nm es type_hint =
     \<lparr>option_name = nm, entries = es, stored = [], list_type_hint = type_hint,
      default_value = [], updates = 0\<rparr>"

text \<open>
  Modelled from the spec: \<^verbatim>\<open>get_value_untyped\<close>, defined outside the header. The spec: it
  returns the full current row grid, row order preserved.
\<close>

definition get_value_untyped :: "'v compound_option \<Rightarrow> stored_type_t" where
  "get_value_untyped opt = stored opt"

definition get_entries :: "'v compound_option \<Rightarrow> 'v compound_option_entry list" where
  "get_entries opt = entries opt"

text \<open>
  Modelled from the spec: \<^verbatim>\<open>set_value_untyped\<close>, defined outside the header. The spec: a
  row is the identifier and one cell per column, exactly \<open>N + 1\<close> strings; the cell at
  column index \<open>c\<close> must satisfy the validation of descriptor \<open>c - 1\<close>, the identifier
  at index 0 is accepted as it is; only if all rows and cells validate is the value
  replaced and the notification sent, otherwise the call changes nothing and reports
  failure. A row that has not \<open>N + 1\<close> cells is no row of the schema and does not
  validate, which is what the invariant on the stored rows asks of this setter.
\<close>

definition row_validates :: "'v compound_option_entry list \<Rightarrow> string list \<Rightarrow> bool" where
  "row_validates es row =
     (length row = length es + 1 \<and>
      list_all (\<lambda>c. is_parsable (es ! (c - 1)) (row ! c)) [1..<length es + 1])"

definition set_value_untyped ::
  "stored_type_t \<Rightarrow> 'v compound_option \<Rightarrow> bool \<times> 'v compound_option" where
  "set_value_untyped val opt =
     (if list_all (row_validates (entries opt)) val
      then (True, notify_updated (opt\<lparr>stored := val\<rparr>))
      else (False, opt))"

text \<open>
  Modelled from the spec: \<^verbatim>\<open>reset_to_default\<close>, defined outside the header. The spec: the
  default is tracked apart from the value, and a reset is a mutation of the value that
  sends one notification.
\<close>

definition reset_to_default :: "'v compound_option \<Rightarrow> 'v compound_option" where
  "reset_to_default opt = notify_updated (opt\<lparr>stored := default_value opt\<rparr>)"

subsection \<open>What the loops compute\<close>

text \<open>
  Specification functions for the proofs. \<open>assign_parsed n\<close> is one run of the body of
  \<^verbatim>\<open>build_recursive<n>\<close> on a tuple whose cell parses; \<open>fill_from n\<close> is the tuple after
  the components \<open>n\<close>, \<open>n + 1\<close>, ... have been assigned; \<open>serialize_from n\<close> lists the
  texts that \<^verbatim>\<open>push_recursive<n>\<close> and its recursive calls append to the row of a tuple.
\<close>

definition assign_parsed :: "nat \<Rightarrow> 'v option_type list \<Rightarrow> string list \<Rightarrow> 'v compound_tuple \<Rightarrow> 'v compound_tuple" where
  "assign_parsed n Args row t =
     (if n = 0 then (row ! 0, snd t)
      else (fst t, (snd t)[n - 1 := the (from_string (Args ! (n - 1)) (row ! n))]))"

definition fill_from :: "nat \<Rightarrow> 'v option_type list \<Rightarrow> string list \<Rightarrow> 'v compound_tuple \<Rightarrow> 'v compound_tuple" where
  "fill_from n Args row t =
     (if n = 0 then row ! 0 else fst t,
      map (\<lambda>k. if n \<le> k + 1 then the (from_string (Args ! k) (row ! (k + 1))) else snd t ! k)
        [0..<length Args])"

definition serialize_from :: "nat \<Rightarrow> 'v option_type list \<Rightarrow> 'v compound_tuple \<Rightarrow> string list" where
  "serialize_from n Args t = map (\<lambda>m. component_to_string m Args t) [n..<length Args + 1]"

subsection \<open>Sample types and a sample option\<close>

text \<open>
  Two semantic types and an option for the closed instances of the theorems: an
  unsigned decimal integer and a text, over a universe of two kinds of values, and the
  schema and the two rows of the spec's example scenario. They instantiate the parameter
  \<open>option_type\<close>; no theorem with a variable type list rests on them.
\<close>

datatype sample_value = IntV int | StrV string

definition digit_of :: "char \<Rightarrow> nat option" where
  "digit_of c = (if 48 \<le> (of_char c :: nat) \<and> (of_char c :: nat) \<le> 57 then Some (of_char c - 48) else None)"

fun parse_digits :: "string \<Rightarrow> nat \<Rightarrow> nat option" where
  "parse_digits [] acc = Some acc"
| "parse_digits (c # cs) acc =
     (case digit_of c of None \<Rightarrow> None | Some d \<Rightarrow> parse_digits cs (10 * acc + d))"

definition sample_int :: "sample_value option_type" where
  "sample_int =
     \<lparr>from_string = (\<lambda>s. if s = [] then None else map_option (\<lambda>n. IntV (int n)) (parse_digits s 0)),
      to_string = (\<lambda>v. case v of IntV i \<Rightarrow> std_to_string i | StrV s \<Rightarrow> []),
      value_init = IntV 0\<rparr>"

definition sample_string :: "sample_value option_type" where
  "sample_string =
     \<lparr>from_string = (\<lambda>s. Some (StrV s)),
      to_string = (\<lambda>v. case v of StrV s \<Rightarrow> s | IntV i \<Rightarrow> []),
      value_init = StrV []\<rparr>"

definition sample_entries :: "sample_value compound_option_entry list" where
  "sample_entries =
     [\<lparr>prefix = ''key_'', name = [], entry_type = sample_int\<rparr>,
      \<lparr>prefix = ''cmd_'', name = [], entry_type = sample_string\<rparr>]"

definition sample_option :: "sample_value compound_option" where
  "sample_option =
     (compound_option_t ''bindings'' sample_entries ''tuple'')
       \<lparr>stored := [[''binding1'', ''5'', ''run-app''], [''binding2'', ''9'', ''toggle'']]\<rparr>"

definition sample_tuples :: "sample_value compound_tuple list" where
  "sample_tuples = [(''binding1'', [IntV 5, StrV ''run-app'']), (''binding2'', [IntV 9, StrV ''toggle''])]"

text \<open>
  The invariant of the spec's data model: every stored row has exactly \<open>N + 1\<close> cells,
  where \<open>N\<close> is the number of entries. The rows of the tracked default are stored rows
  too: \<^verbatim>\<open>reset_to_default\<close> makes them the value.
\<close>

definition rows_invariant :: "'v compound_option \<Rightarrow> bool" where
  "rows_invariant opt =
     (list_all (\<lambda>row. length row = length (entries opt) + 1) (stored opt) \<and>
      list_all (\<lambda>row. length row = length (entries opt) + 1) (default_value opt))"

text \<open>Two grids for the sample option: one with a cell that is no integer, one valid.\<close>

definition sample_rejected :: stored_type_t where
  "sample_rejected = [[''b'', ''not-an-int'', ''x'']]"

definition sample_accepted :: stored_type_t where
  "sample_accepted = [[''b'', ''77'', ''x''], [''c'', ''8'', []]]"

text \<open>
  \<open>numbered L\<close> is \<open>L\<close> with, in front of tuple \<open>i\<close>, the identifier \<open>i\<close> printed in
  decimal. \<open>sample_simple\<close> is a list of plain tuples and \<open>empty_option\<close> an option with
  no column.
\<close>

definition numbered :: "'v simple_tuple list \<Rightarrow> 'v compound_tuple list" where
  "numbered L = map (\<lambda>i. (std_to_string (int i), L ! i)) [0..<length L]"

definition sample_simple :: "sample_value simple_tuple list" where
  "sample_simple = [[IntV 5, StrV ''x''], [IntV 9, StrV ''y'']]"

definition empty_option :: "sample_value compound_option" where
  "empty_option = compound_option_t [] [] []"



section \<open>Theorems\<close>

subsection \<open>Loops over an index range\<close>

lemma for_each_append:
  "for_each (xs @ ys) body st =
     (case for_each xs body st of Inl e \<Rightarrow> Inl e | Inr st' \<Rightarrow> for_each ys body st')"
  by (induction xs arbitrary: st) (auto split: sum.splits)

lemma for_each_upt_prefix:
  assumes init: "P 0 st"
    and step: "\<And>i s. i < n \<Longrightarrow> P i s \<Longrightarrow> \<exists>s'. body i s = Inr s' \<and> P (Suc i) s'"
  shows "m \<le> n \<Longrightarrow> \<exists>s'. for_each [0..<m] body st = Inr s' \<and> P m s'"
proof (induction m)
  case 0
  show ?case using init by simp
next
  case (Suc m)
  then obtain s where s: "for_each [0..<m] body st = Inr s" "P m s" by auto
  from Suc.prems have "m < n" by simp
  from step [OF this s(2)] obtain s' where "body m s = Inr s'" "P (Suc m) s'" by blast
  with s show ?case by (simp add: for_each_append)
qed

lemma for_each_upt_invariant:
  assumes "P 0 st"
    and "\<And>i s. i < n \<Longrightarrow> P i s \<Longrightarrow> \<exists>s'. body i s = Inr s' \<and> P (Suc i) s'"
  shows "\<exists>s'. for_each [0..<n] body st = Inr s' \<and> P n s'"
  using for_each_upt_prefix [of P st n body n] assms by blast

subsection \<open>One column of \<^verbatim>\<open>build_recursive\<close>\<close>

lemma build_column:
  assumes len: "length result = length val"
    and cells: "\<forall>i<length val. n < length (val ! i)"
    and parse: "0 < n \<Longrightarrow> \<forall>i<length val. from_string (Args ! (n - 1)) (val ! i ! n) \<noteq> None"
  shows "for_each [0..<length result] (build_entry n Args val) result =
           Inr (map (\<lambda>i. assign_parsed n Args (val ! i) (result ! i)) [0..<length result])"
proof -
  let ?P = "\<lambda>i s. s = map (\<lambda>j. if j < i then assign_parsed n Args (val ! j) (result ! j) else result ! j) [0..<length result]"
  have init: "?P 0 result" by (simp add: map_nth)
  have step: "\<exists>s'. build_entry n Args val i s = Inr s' \<and> ?P (Suc i) s'"
    if i: "i < length result" and s: "?P i s" for i s
  proof -
    have ls: "length s = length result" using s by simp
    have si: "s ! i = result ! i" using s i by simp
    have upd: "s[i := assign_parsed n Args (val ! i) (result ! i)] =
        map (\<lambda>j. if j < Suc i then assign_parsed n Args (val ! j) (result ! j) else result ! j) [0..<length result]"
      using s i by (auto intro!: nth_equalityI simp: nth_list_update less_Suc_eq)
    have "build_entry n Args val i s = Inr (s[i := assign_parsed n Args (val ! i) (result ! i)])"
    proof (cases "n = 0")
      case True
      then show ?thesis using i len cells ls si
        by (simp add: build_entry_def assign_parsed_def from_string_string_def)
    next
      case False
      then obtain v where "from_string (Args ! (n - 1)) (val ! i ! n) = Some v"
        using parse i len by auto
      then show ?thesis using False i len cells ls si
        by (simp add: build_entry_def assign_parsed_def)
    qed
    then show ?thesis using upd by simp
  qed
  have "\<exists>s'. for_each [0..<length result] (build_entry n Args val) result = Inr s' \<and> ?P (length result) s'"
    using for_each_upt_invariant [of ?P result "length result" "build_entry n Args val"] init step
    by blast
  then show ?thesis by (auto intro!: nth_equalityI)
qed


subsection \<open>\<^verbatim>\<open>build_recursive\<close> fills every component\<close>

lemma fill_from_assign_parsed:
  assumes "n \<le> length Args" and "length (snd t) = length Args"
  shows "fill_from (Suc n) Args row (assign_parsed n Args row t) = fill_from n Args row t"
proof (cases "n = 0")
  case True
  then show ?thesis by (simp add: fill_from_def assign_parsed_def)
next
  case False
  then show ?thesis using assms
    by (auto simp: fill_from_def assign_parsed_def nth_list_update less_Suc_eq_le)
qed

lemma fill_from_past_end:
  assumes "length (snd t) = length Args"
  shows "fill_from (Suc (length Args)) Args row t = t"
proof -
  have "map (\<lambda>k. if Suc (length Args) \<le> k + 1
                  then the (from_string (Args ! k) (row ! (k + 1))) else snd t ! k)
          [0..<length Args] = map (\<lambda>k. snd t ! k) [0..<length Args]"
    by (rule map_cong) simp_all
  also have "\<dots> = snd t"
    using assms map_nth [of "snd t"] by simp
  finally show ?thesis by (simp add: fill_from_def prod_eq_iff)
qed

lemma length_snd_assign_parsed:
  "length (snd (assign_parsed n Args row t)) = length (snd t)"
  by (simp add: assign_parsed_def)

lemma build_recursive_fills:
  assumes "n \<le> length Args"
    and "length result = length val"
    and "\<forall>i<length result. length (snd (result ! i)) = length Args"
    and "\<forall>i<length val. length Args < length (val ! i)"
    and "\<forall>i<length val. \<forall>k<length Args. from_string (Args ! k) (val ! i ! (k + 1)) \<noteq> None"
  shows "build_recursive n Args val result =
           Inr (map (\<lambda>i. fill_from n Args (val ! i) (result ! i)) [0..<length result])"
  using assms
proof (induction n Args val result rule: build_recursive.induct)
  case (1 n Args val result)
  let ?r = "map (\<lambda>i. assign_parsed n Args (val ! i) (result ! i)) [0..<length result]"
  have col: "for_each [0..<length result] (build_entry n Args val) result = Inr ?r"
  proof (rule build_column)
    show "length result = length val" by (rule "1.prems")
    show "\<forall>i<length val. n < length (val ! i)" using "1.prems" by auto
    show "\<forall>i<length val. from_string (Args ! (n - 1)) (val ! i ! n) \<noteq> None" if "0 < n"
    proof (intro allI impI)
      fix i assume "i < length val"
      moreover have "n - 1 < length Args" using that "1.prems"(1) by simp
      ultimately have "from_string (Args ! (n - 1)) (val ! i ! ((n - 1) + 1)) \<noteq> None"
        using "1.prems"(5) by blast
      then show "from_string (Args ! (n - 1)) (val ! i ! n) \<noteq> None" using that by simp
    qed
  qed
  show ?case
  proof (cases "n < length Args")
    case True
    have "build_recursive (n + 1) Args val ?r =
            Inr (map (\<lambda>i. fill_from (n + 1) Args (val ! i) (?r ! i)) [0..<length ?r])"
      using "1.prems" True
      by (intro "1.IH" [OF col True]) (simp_all add: length_snd_assign_parsed)
    also have "map (\<lambda>i. fill_from (n + 1) Args (val ! i) (?r ! i)) [0..<length ?r] =
                 map (\<lambda>i. fill_from n Args (val ! i) (result ! i)) [0..<length result]"
      using "1.prems" by (simp add: fill_from_assign_parsed)
    finally show ?thesis using col True
      by (subst build_recursive.simps) simp
  next
    case False
    then have n: "n = length Args" using "1.prems"(1) by simp
    have "?r = map (\<lambda>i. fill_from n Args (val ! i) (result ! i)) [0..<length result]"
    proof (rule map_cong [OF refl])
      fix i assume "i \<in> set [0..<length result]"
      then have i: "i < length result" by simp
      have "fill_from (Suc n) Args (val ! i) (assign_parsed n Args (val ! i) (result ! i)) =
              assign_parsed n Args (val ! i) (result ! i)"
        unfolding n using "1.prems"(3) i
        by (intro fill_from_past_end) (simp add: length_snd_assign_parsed)
      then show "assign_parsed n Args (val ! i) (result ! i) = fill_from n Args (val ! i) (result ! i)"
        using fill_from_assign_parsed [of n Args "result ! i" "val ! i"] "1.prems" i by simp
    qed
    then show ?thesis using col False
      by (subst build_recursive.simps) simp
  qed
qed

subsection \<open>The tuple helpers and the column descriptor\<close>

text \<open>
  C10. \<^verbatim>\<open>pop_first\<close> undoes \<^verbatim>\<open>push_first\<close>: popping the first component of
  \<open>push_first t tup\<close> gives \<open>tup\<close> back; and pushing the first component \<open>t1\<close> of a
  non-empty tuple \<open>(t1, ts)\<close> onto \<open>pop_first (t1, ts)\<close> gives the tuple back.
\<close>

theorem pop_first_push_first_inverse:
  "pop_first (push_first t tup) = tup \<and> push_first t1 (pop_first (t1, ts)) = (t1, ts)"
  by (simp add: pop_first_def push_first_def)

text \<open>
  \<^verbatim>\<open>is_parsable\<close> of a descriptor of semantic type \<open>T\<close> is true exactly when
  \<^verbatim>\<open>from_string<T>\<close> returns a value for the text.
\<close>

lemma is_parsable_iff_parses:
  "is_parsable e raw = (\<exists>v. from_string (entry_type e) raw = Some v)"
  by (simp add: is_parsable_def)

subsection \<open>\<^verbatim>\<open>get_value\<close>\<close>

lemma get_value_parses:
  assumes rows: "\<forall>row\<in>set (stored opt). length Args < length row"
    and parse: "\<forall>row\<in>set (stored opt). \<forall>k<length Args. from_string (Args ! k) (row ! (k + 1)) \<noteq> None"
  shows "get_value Args opt =
           Inr (map (\<lambda>row. (row ! 0, map (\<lambda>k. the (from_string (Args ! k) (row ! (k + 1)))) [0..<length Args]))
                  (stored opt))"
proof -
  define val where "val = stored opt"
  define init where "init = replicate (length val) ([] :: string, map value_init Args)"
  have len: "length init = length val" by (simp add: init_def)
  have a: "\<forall>i<length init. length (snd (init ! i)) = length Args" by (simp add: init_def)
  have b: "\<forall>i<length val. length Args < length (val ! i)"
    using rows by (simp add: val_def)
  have c: "\<forall>i<length val. \<forall>k<length Args. from_string (Args ! k) (val ! i ! (k + 1)) \<noteq> None"
    using parse by (simp add: val_def)
  have "build_recursive 0 Args val init =
          Inr (map (\<lambda>i. fill_from 0 Args (val ! i) (init ! i)) [0..<length init])"
    by (rule build_recursive_fills [OF _ len a b c]) simp
  also have "map (\<lambda>i. fill_from 0 Args (val ! i) (init ! i)) [0..<length init] =
      map (\<lambda>row. (row ! 0, map (\<lambda>k. the (from_string (Args ! k) (row ! (k + 1)))) [0..<length Args])) val"
    by (rule nth_equalityI) (simp_all add: fill_from_def len)
  finally show ?thesis by (simp add: get_value_def val_def init_def)
qed

text \<open>
  C4. When the type list has the schema's arity, every stored row has \<open>N + 1\<close> cells and
  every cell \<open>k + 1\<close> of every row parses as \<open>Args[k]\<close>, \<^verbatim>\<open>get_value<Args...>\<close> returns one
  tuple per stored row, in row order; the identifier of tuple \<open>i\<close> is cell 0 of row \<open>i\<close>,
  and its component \<open>k\<close> after the identifier is the value that parsing cell \<open>k + 1\<close> of
  row \<open>i\<close> as \<open>Args[k]\<close> returns, for each \<open>k\<close> from 0 to \<open>N - 1\<close>.
\<close>

theorem get_value_builds_parsed_tuples:
  assumes "length Args = length (entries opt)"
    and "\<forall>row\<in>set (stored opt). length row = length (entries opt) + 1"
    and "\<forall>row\<in>set (stored opt). \<forall>k<length Args. from_string (Args ! k) (row ! (k + 1)) \<noteq> None"
  shows "\<exists>result. get_value Args opt = Inr result \<and> length result = length (stored opt) \<and>
           (\<forall>i<length result.
              fst (result ! i) = stored opt ! i ! 0 \<and>
              length (snd (result ! i)) = length Args \<and>
              (\<forall>k<length Args.
                 from_string (Args ! k) (stored opt ! i ! (k + 1)) = Some (snd (result ! i) ! k)))"
proof -
  let ?result = "map (\<lambda>row. (row ! 0, map (\<lambda>k. the (from_string (Args ! k) (row ! (k + 1)))) [0..<length Args]))
                  (stored opt)"
  have "\<forall>row\<in>set (stored opt). length Args < length row" using assms(1,2) by simp
  then have get: "get_value Args opt = Inr ?result"
    using assms(3) by (rule get_value_parses)
  have cell: "from_string (Args ! k) (stored opt ! i ! (k + 1)) =
                Some (the (from_string (Args ! k) (stored opt ! i ! (k + 1))))"
    if "i < length (stored opt)" and "k < length Args" for i k
  proof -
    have "stored opt ! i \<in> set (stored opt)" using that(1) by simp
    then have "from_string (Args ! k) (stored opt ! i ! (k + 1)) \<noteq> None"
      using assms(3) that(2) by blast
    then show ?thesis by simp
  qed
  show ?thesis
  proof (intro exI conjI allI impI)
    show "get_value Args opt = Inr ?result" by (rule get)
  qed (use cell in simp_all)
qed


theorem get_value_builds_parsed_tuples_witness:
  "\<exists>result. get_value [sample_int, sample_string] sample_option = Inr result \<and>
      length result = length (stored sample_option) \<and>
      (\<forall>i<length result.
         fst (result ! i) = stored sample_option ! i ! 0 \<and>
         length (snd (result ! i)) = length [sample_int, sample_string] \<and>
         (\<forall>k<length [sample_int, sample_string].
            from_string ([sample_int, sample_string] ! k) (stored sample_option ! i ! (k + 1)) =
              Some (snd (result ! i) ! k)))"
proof -
  have arity: "length [sample_int, sample_string] = length (entries sample_option)"
    by (simp add: sample_option_def compound_option_t_def sample_entries_def)
  have rows: "\<forall>row\<in>set (stored sample_option). length row = length (entries sample_option) + 1"
    by (simp add: sample_option_def compound_option_t_def sample_entries_def)
  have cells: "\<forall>row\<in>set (stored sample_option). \<forall>k<length [sample_int, sample_string].
      from_string ([sample_int, sample_string] ! k) (row ! (k + 1)) \<noteq> None"
    by (simp add: sample_option_def compound_option_t_def sample_int_def sample_string_def
        digit_of_def less_Suc_eq)
  show ?thesis
    by (rule get_value_builds_parsed_tuples [OF arity rows cells])
qed

subsection \<open>\<^verbatim>\<open>push_recursive\<close> and \<^verbatim>\<open>set_value\<close>\<close>

lemma push_column:
  assumes len: "length val = length new_value"
  shows "for_each [0..<length new_value] (push_entry n Args new_value) val =
           Inr (map (\<lambda>i. val ! i @ [component_to_string n Args (new_value ! i)])
                  [0..<length new_value])"
proof -
  let ?P = "\<lambda>i s. s = map (\<lambda>j. if j < i then val ! j @ [component_to_string n Args (new_value ! j)]
                                else val ! j) [0..<length new_value]"
  have init: "?P 0 val" using map_nth [of val] len by simp
  have step: "\<exists>s'. push_entry n Args new_value i s = Inr s' \<and> ?P (Suc i) s'"
    if i: "i < length new_value" and s: "?P i s" for i s
  proof -
    have ls: "length s = length new_value" using s by simp
    have si: "s ! i = val ! i" using s i by simp
    have "s[i := val ! i @ [component_to_string n Args (new_value ! i)]] =
        map (\<lambda>j. if j < Suc i then val ! j @ [component_to_string n Args (new_value ! j)]
                  else val ! j) [0..<length new_value]"
      using s i by (auto intro!: nth_equalityI simp: nth_list_update less_Suc_eq)
    then show ?thesis using i ls si by (simp add: push_entry_def)
  qed
  have "\<exists>s'. for_each [0..<length new_value] (push_entry n Args new_value) val = Inr s' \<and>
          ?P (length new_value) s'"
    using for_each_upt_invariant [of ?P val "length new_value" "push_entry n Args new_value"]
      init step by blast
  then show ?thesis by (auto intro!: nth_equalityI)
qed

lemma serialize_from_Cons:
  "n \<le> length Args \<Longrightarrow>
     serialize_from n Args t = component_to_string n Args t # serialize_from (Suc n) Args t"
  by (auto simp: serialize_from_def upt_conv_Cons not_less_eq_eq le_antisym)

lemma serialize_from_past_end: "serialize_from (Suc (length Args)) Args t = []"
  by (simp add: serialize_from_def)

lemma push_recursive_appends:
  assumes "n \<le> length Args" and "length val = length new_value"
  shows "push_recursive n Args new_value val =
           Inr (map (\<lambda>i. val ! i @ serialize_from n Args (new_value ! i)) [0..<length new_value])"
  using assms
proof (induction n Args new_value val rule: push_recursive.induct)
  case (1 n Args new_value val)
  let ?v = "map (\<lambda>i. val ! i @ [component_to_string n Args (new_value ! i)]) [0..<length new_value]"
  have col: "for_each [0..<length new_value] (push_entry n Args new_value) val = Inr ?v"
    using "1.prems"(2) by (rule push_column)
  show ?case
  proof (cases "n < length Args")
    case True
    have "push_recursive (n + 1) Args new_value ?v =
            Inr (map (\<lambda>i. ?v ! i @ serialize_from (n + 1) Args (new_value ! i)) [0..<length new_value])"
      using True by (intro "1.IH" [OF col True]) simp_all
    also have "map (\<lambda>i. ?v ! i @ serialize_from (n + 1) Args (new_value ! i)) [0..<length new_value] =
                 map (\<lambda>i. val ! i @ serialize_from n Args (new_value ! i)) [0..<length new_value]"
      using "1.prems"(1) by (simp add: serialize_from_Cons [of n])
    finally show ?thesis using col True
      by (subst push_recursive.simps) simp
  next
    case False
    then have n: "n = length Args" using "1.prems"(1) by simp
    have "?v = map (\<lambda>i. val ! i @ serialize_from n Args (new_value ! i)) [0..<length new_value]"
      by (simp add: n serialize_from_Cons [of "length Args"] serialize_from_past_end)
    then show ?thesis using col False
      by (subst push_recursive.simps) simp
  qed
qed

lemma set_value_stores:
  assumes "length Args = length (entries opt)"
  shows "set_value Args new_value opt =
           Inr (notify_updated (opt\<lparr>stored := map (serialize_from 0 Args) new_value\<rparr>))"
proof -
  have "push_recursive 0 Args new_value (replicate (length new_value) []) =
          Inr (map (\<lambda>i. replicate (length new_value) [] ! i @ serialize_from 0 Args (new_value ! i))
                 [0..<length new_value])"
    by (rule push_recursive_appends) simp_all
  also have "map (\<lambda>i. replicate (length new_value) [] ! i @ serialize_from 0 Args (new_value ! i))
                 [0..<length new_value] = map (serialize_from 0 Args) new_value"
    by (rule nth_equalityI) simp_all
  finally show ?thesis using assms by (simp add: set_value_def)
qed

lemma set_value_fails:
  "length Args \<noteq> length (entries opt) \<Longrightarrow> set_value Args new_value opt = Inl AssertionFailed"
  by (simp add: set_value_def)

lemma length_serialize_from: "length (serialize_from 0 Args t) = length Args + 1"
  by (simp add: serialize_from_def)













subsection \<open>The untyped setter\<close>

lemma row_validates_rejects:
  assumes "1 \<le> c" and "c < length row" and "c \<le> length es"
    and "\<not> is_parsable (es ! (c - 1)) (row ! c)"
  shows "\<not> row_validates es row"
proof
  assume v: "row_validates es row"
  then have "\<forall>c\<in>set [1..<length es + 1]. is_parsable (es ! (c - 1)) (row ! c)"
    by (simp add: row_validates_def list_all_iff del: upt_Suc)
  moreover have "c \<in> set [1..<length es + 1]" using assms(1,3) by (simp del: upt_Suc)
  ultimately show False using assms(4) by blast
qed

lemma row_validates_accepts:
  assumes "length row = length es + 1"
    and "\<forall>c. 1 \<le> c \<and> c \<le> length es \<longrightarrow> is_parsable (es ! (c - 1)) (row ! c)"
  shows "row_validates es row"
  using assms by (simp add: row_validates_def list_all_iff del: upt_Suc)

text \<open>
  C1. If a grid passed to \<^verbatim>\<open>set_value_untyped\<close> has, in some row, a cell at a column
  index \<open>c \<ge> 1\<close> that the validation of descriptor \<open>c - 1\<close> rejects, the call returns
  failure and leaves the option as it was: \<^verbatim>\<open>get_value_untyped\<close> afterwards returns the
  value from before the call, nothing of the grid is stored.
\<close>

theorem set_value_untyped_all_or_nothing:
  assumes "row \<in> set val" and "1 \<le> c" and "c < length row" and "c \<le> length (entries opt)"
    and "\<not> is_parsable (entries opt ! (c - 1)) (row ! c)"
  shows "set_value_untyped val opt = (False, opt) \<and>
         get_value_untyped (snd (set_value_untyped val opt)) = get_value_untyped opt"
proof -
  have "\<not> row_validates (entries opt) row"
    using assms(2-5) by (rule row_validates_rejects)
  then have "\<not> list_all (row_validates (entries opt)) val"
    using assms(1) by (auto simp: list_all_iff)
  then show ?thesis by (simp add: set_value_untyped_def)
qed

lemma sample_int_rejects: "from_string sample_int ''not-an-int'' = None"
  by code_simp

lemma sample_int_accepts: "from_string sample_int ''77'' = Some (IntV 77)" "from_string sample_int ''8'' = Some (IntV 8)"
  by code_simp+

theorem set_value_untyped_all_or_nothing_witness:
  "set_value_untyped sample_rejected sample_option = (False, sample_option) \<and>
   get_value_untyped (snd (set_value_untyped sample_rejected sample_option)) =
     [[''binding1'', ''5'', ''run-app''], [''binding2'', ''9'', ''toggle'']]"
proof -
  have 1: "[''b'', ''not-an-int'', ''x''] \<in> set sample_rejected"
    by (simp add: sample_rejected_def)
  have 2: "(1::nat) \<le> 1" by simp
  have 3: "1 < length [''b'', ''not-an-int'', ''x'']" by simp
  have 4: "1 \<le> length (entries sample_option)"
    by (simp add: sample_option_def compound_option_t_def sample_entries_def)
  have 5: "\<not> is_parsable (entries sample_option ! (1 - 1)) ([''b'', ''not-an-int'', ''x''] ! 1)"
    by (simp add: sample_option_def compound_option_t_def sample_entries_def is_parsable_def
        sample_int_rejects)
  have "get_value_untyped sample_option =
     [[''binding1'', ''5'', ''run-app''], [''binding2'', ''9'', ''toggle'']]"
    by (simp add: get_value_untyped_def sample_option_def compound_option_t_def)
  with set_value_untyped_all_or_nothing [OF 1 2 3 4 5] show ?thesis by simp
qed

text \<open>
  C3. For a grid \<open>V\<close> of the schema (every row has \<open>N + 1\<close> cells, as the spec defines a
  row and as it says of the rows that \<^verbatim>\<open>get_value_untyped\<close> returns) in which every
  non-identifier cell validates against its column's descriptor,
  \<^verbatim>\<open>set_value_untyped(V)\<close> succeeds and \<^verbatim>\<open>get_value_untyped()\<close> then returns \<open>V\<close> itself: the
  same rows, cells and texts in the same order.
\<close>

theorem set_value_untyped_round_trip:
  assumes "\<forall>row\<in>set V. length row = length (entries opt) + 1"
    and "\<forall>row\<in>set V. \<forall>c. 1 \<le> c \<and> c \<le> length (entries opt) \<longrightarrow>
           is_parsable (entries opt ! (c - 1)) (row ! c)"
  shows "fst (set_value_untyped V opt) = True \<and>
         get_value_untyped (snd (set_value_untyped V opt)) = V"
proof -
  have "list_all (row_validates (entries opt)) V"
    using assms by (auto simp: list_all_iff intro!: row_validates_accepts)
  then show ?thesis
    by (simp add: set_value_untyped_def get_value_untyped_def notify_updated_def)
qed

theorem set_value_untyped_round_trip_witness:
  "fst (set_value_untyped sample_accepted sample_option) = True \<and>
   get_value_untyped (snd (set_value_untyped sample_accepted sample_option)) =
     [[''b'', ''77'', ''x''], [''c'', ''8'', []]]"
proof -
  have e: "entries sample_option = sample_entries"
    by (simp add: sample_option_def compound_option_t_def)
  have 1: "\<forall>row\<in>set sample_accepted. length row = length (entries sample_option) + 1"
    by (simp add: sample_accepted_def e sample_entries_def)
  have 2: "\<forall>row\<in>set sample_accepted. \<forall>c. 1 \<le> c \<and> c \<le> length (entries sample_option) \<longrightarrow>
           is_parsable (entries sample_option ! (c - 1)) (row ! c)"
  proof (intro ballI allI impI)
    fix row c assume "row \<in> set sample_accepted" and "1 \<le> c \<and> c \<le> length (entries sample_option)"
    then have "c = 1 \<or> c = 2" and "row = [''b'', ''77'', ''x''] \<or> row = [''c'', ''8'', []]"
      by (auto simp: e sample_entries_def sample_accepted_def)
    then show "is_parsable (entries sample_option ! (c - 1)) (row ! c)"
      by (auto simp: e sample_entries_def is_parsable_def sample_int_accepts sample_string_def)
  qed
  from set_value_untyped_round_trip [OF 1 2] show ?thesis
    by (simp add: sample_accepted_def)
qed

subsection \<open>\<^verbatim>\<open>set_value_simple\<close> and \<^verbatim>\<open>get_value_simple\<close>\<close>

lemma int_of_size_small: "n < 2 ^ 31 \<Longrightarrow> int_of_size n = int n"
  unfolding int_of_size_def
  by (simp add: signed_of_nat signed_take_bit_int_eq_self take_bit_nat_eq_self)

lemma int_of_size_2_31: "int_of_size (2 ^ 31) = - (2 ^ 31)"
  unfolding int_of_size_def by simp

lemma number_tuples_from:
  assumes "0 \<le> i" and "nat i \<le> length val" and "length val < 2 ^ 31"
  shows "number_tuples i val list =
           list @ map (\<lambda>j. push_first (std_to_string (int j)) (val ! j)) [nat i..<length val]"
  using assms
proof (induction i val list rule: number_tuples.induct)
  case (1 i val list)
  have sz: "int_of_size (length val) = int (length val)"
    using "1.prems"(3) by (rule int_of_size_small)
  show ?case
  proof (cases "i < int_of_size (length val)")
    case True
    then have lt: "nat i < length val" using sz "1.prems"(1) by simp
    have "number_tuples (i + 1) val (list @ [push_first (std_to_string i) (val ! nat i)]) =
            (list @ [push_first (std_to_string i) (val ! nat i)]) @
              map (\<lambda>j. push_first (std_to_string (int j)) (val ! j)) [nat (i + 1)..<length val]"
      using "1.prems" lt by (intro "1.IH" [OF True]) simp_all
    moreover have "[nat i..<length val] = nat i # [nat (i + 1)..<length val]"
      using lt "1.prems"(1) by (simp add: upt_conv_Cons nat_add_distrib)
    moreover have "int (nat i) = i" using "1.prems"(1) by simp
    ultimately show ?thesis using True
      by (subst number_tuples.simps) simp
  next
    case False
    then have "nat i = length val" using sz "1.prems" by simp
    then show ?thesis using False
      by (subst number_tuples.simps) simp
  qed
qed

lemma pop_each_map: "pop_each list result = result @ map pop_first list"
  by (induction list arbitrary: result) simp_all


lemma set_value_stored_length:
  assumes "set_value Args T opt = Inr opt'"
  shows "length (stored opt') = length T"
proof (cases "length Args = length (entries opt)")
  case True
  then show ?thesis using assms by (auto simp: set_value_stores notify_updated_def)
next
  case False
  then show ?thesis using assms by (simp add: set_value_fails)
qed

text \<open>
  For a list \<open>L\<close> of fewer than \<open>2^31\<close> plain tuples, \<^verbatim>\<open>set_value_simple<Args...>(L)\<close> does
  what \<^verbatim>\<open>set_value\<close> does on \<open>numbered L\<close>; and \<^verbatim>\<open>get_value_simple<Args...>()\<close> returns what
  \<^verbatim>\<open>get_value<Args...>()\<close> returns with the identifier dropped from every tuple, in the same
  order, and fails where \<^verbatim>\<open>get_value\<close> fails.
\<close>

lemma set_value_simple_numbers_rows:
  assumes "length L < 2 ^ 31"
  shows "set_value_simple Args L opt = set_value Args (numbered L) opt \<and>
         get_value_simple Args opt =
           (case get_value Args opt of Inl e \<Rightarrow> Inl e | Inr list \<Rightarrow> Inr (map snd list))"
proof -
  have nt: "number_tuples 0 L [] = numbered L"
    using number_tuples_from [of 0 L "[]"] assms
    by (simp add: numbered_def push_first_def del: number_tuples.simps)
  have pe: "pop_each list [] = map snd list" for list :: "'a compound_tuple list"
    by (simp add: pop_each_map pop_first_def split_def cong: map_cong)
  have "set_value_simple Args L opt = set_value Args (numbered L) opt"
    by (simp only: set_value_simple_def nt)
  moreover have "get_value_simple Args opt =
           (case get_value Args opt of Inl e \<Rightarrow> Inl e | Inr list \<Rightarrow> Inr (map snd list))"
    by (simp add: get_value_simple_def pe split: sum.splits)
  ultimately show ?thesis by (rule conjI)
qed

lemma sample_get_value:
  "get_value [sample_int, sample_string] sample_option =
     Inr [(''binding1'', [IntV 5, StrV ''run-app'']), (''binding2'', [IntV 9, StrV ''toggle''])]"
  by code_simp

lemma sample_numbered:
  "numbered sample_simple = [(''0'', [IntV 5, StrV ''x'']), (''1'', [IntV 9, StrV ''y''])]"
  by code_simp

lemma set_value_simple_numbers_rows_sample:
  "set_value_simple [sample_int, sample_string] sample_simple sample_option =
     set_value [sample_int, sample_string]
       [(''0'', [IntV 5, StrV ''x'']), (''1'', [IntV 9, StrV ''y''])] sample_option \<and>
   get_value_simple [sample_int, sample_string] sample_option =
     Inr [[IntV 5, StrV ''run-app''], [IntV 9, StrV ''toggle'']]"
proof -
  have "length sample_simple < 2 ^ 31" by (simp add: sample_simple_def)
  from set_value_simple_numbers_rows [OF this, of "[sample_int, sample_string]" sample_option]
  show ?thesis by (simp add: sample_numbered sample_get_value)
qed

text \<open>
  C8. \<^verbatim>\<open>set_value_simple<Args...>(L)\<close> should store the grid that \<^verbatim>\<open>set_value\<close> stores for
  \<open>numbered L\<close>, for every list \<open>L\<close>. It does not for a list of \<open>2^31\<close> tuples (here of no
  component): the loop counter is an \<^verbatim>\<open>int\<close> and the bound is \<^verbatim>\<open>(int)value.size()\<close>, which
  is \<open>- 2^31\<close> there, so the loop body never runs and an empty grid is stored, where the
  numbered list has \<open>2^31\<close> rows. The loops of \<^verbatim>\<open>build_recursive\<close> and \<^verbatim>\<open>push_recursive\<close>
  count in \<^verbatim>\<open>size_t\<close>.
\<close>

theorem set_value_simple_counterexample:
  "set_value_simple [] (replicate (2 ^ 31) []) empty_option \<noteq>
     set_value [] (numbered (replicate (2 ^ 31) [])) empty_option"
proof
  let ?L = "replicate (2 ^ 31) [] :: sample_value simple_tuple list"
  assume eq: "set_value_simple [] ?L empty_option = set_value [] (numbered ?L) empty_option"
  have "number_tuples 0 ?L [] = []"
    by (subst number_tuples.simps) (simp only: length_replicate int_of_size_2_31, simp)
  then have l: "set_value_simple [] ?L empty_option = set_value [] [] empty_option"
    by (simp only: set_value_simple_def)
  have ar: "length ([] :: sample_value option_type list) = length (entries empty_option)"
    by (simp add: empty_option_def compound_option_t_def)
  obtain opt' where o: "set_value [] [] empty_option = Inr opt'"
    using set_value_stores [OF ar] by blast
  have "length (stored opt') = length ([] :: sample_value compound_tuple list)"
    using o by (rule set_value_stored_length)
  moreover have "set_value [] (numbered ?L) empty_option = Inr opt'"
    using eq l o by simp
  then have "length (stored opt') = length (numbered ?L)"
    by (rule set_value_stored_length)
  moreover have "length (numbered ?L) = 2 ^ 31"
    by (simp only: numbered_def length_map length_upt length_replicate diff_zero)
  ultimately show False by simp
qed

subsection \<open>Notifications, the row invariant and the arity check\<close>

lemma set_value_Inr:
  assumes "set_value Args T opt = Inr opt'"
  shows "length Args = length (entries opt) \<and>
         opt' = notify_updated (opt\<lparr>stored := map (serialize_from 0 Args) T\<rparr>)"
proof (cases "length Args = length (entries opt)")
  case True
  then show ?thesis using assms by (simp add: set_value_stores)
next
  case False
  then show ?thesis using assms by (simp add: set_value_fails)
qed

text \<open>
  C6. Every successful mutation of the stored value sends exactly one change
  notification: a \<^verbatim>\<open>set_value\<close> or \<^verbatim>\<open>set_value_simple\<close> that returns, a
  \<^verbatim>\<open>set_value_untyped\<close> that reports success, and \<^verbatim>\<open>reset_to_default\<close> each raise the
  number of notifications by one. A \<^verbatim>\<open>set_value_untyped\<close> that reports failure leaves the
  option as it was and sends none. (A typed setter that does not return has stopped the
  program at its assertion, before \<^verbatim>\<open>notify_updated\<close>.)
\<close>

theorem one_notification_per_mutation:
  "(set_value Args T opt = Inr opt1 \<longrightarrow> updates opt1 = updates opt + 1) \<and>
   (set_value_simple Args L opt = Inr opt2 \<longrightarrow> updates opt2 = updates opt + 1) \<and>
   (set_value_untyped V opt = (True, opt3) \<longrightarrow> updates opt3 = updates opt + 1) \<and>
   (set_value_untyped W opt = (False, opt4) \<longrightarrow> opt4 = opt \<and> updates opt4 = updates opt) \<and>
   updates (reset_to_default opt) = updates opt + 1"
proof (intro conjI impI)
  assume "set_value Args T opt = Inr opt1"
  from set_value_Inr [OF this] show "updates opt1 = updates opt + 1"
    by (simp add: notify_updated_def)
next
  assume "set_value_simple Args L opt = Inr opt2"
  then have "set_value Args (number_tuples 0 L []) opt = Inr opt2"
    by (simp only: set_value_simple_def)
  from set_value_Inr [OF this] show "updates opt2 = updates opt + 1"
    by (simp add: notify_updated_def)
next
  assume "set_value_untyped V opt = (True, opt3)"
  then show "updates opt3 = updates opt + 1"
    by (auto simp: set_value_untyped_def notify_updated_def split: if_splits)
next
  assume w: "set_value_untyped W opt = (False, opt4)"
  then show "opt4 = opt"
    by (auto simp: set_value_untyped_def split: if_splits)
  then show "updates opt4 = updates opt" by simp
next
  show "updates (reset_to_default opt) = updates opt + 1"
    by (simp add: reset_to_default_def notify_updated_def)
qed

lemma sample_option_entries: "entries sample_option = sample_entries"
  by (simp add: sample_option_def compound_option_t_def)

lemma sample_option_updates: "updates sample_option = 0"
  by (simp add: sample_option_def compound_option_t_def)

lemma sample_accepted_validates: "list_all (row_validates (entries sample_option)) sample_accepted"
  by (simp add: sample_accepted_def sample_option_entries sample_entries_def row_validates_def
      is_parsable_def sample_string_def sample_int_accepts upt_conv_Cons)

lemma sample_rejected_fails: "\<not> list_all (row_validates (entries sample_option)) sample_rejected"
  by (simp add: sample_rejected_def sample_option_entries sample_entries_def row_validates_def
      is_parsable_def sample_int_rejects upt_conv_Cons)

theorem one_notification_per_mutation_witness:
  "(\<exists>opt1. set_value [sample_int, sample_string] sample_tuples sample_option = Inr opt1 \<and>
       updates opt1 = 1) \<and>
   (\<exists>opt2. set_value_simple [sample_int, sample_string] sample_simple sample_option = Inr opt2 \<and>
       updates opt2 = 1) \<and>
   (\<exists>opt3. set_value_untyped sample_accepted sample_option = (True, opt3) \<and> updates opt3 = 1) \<and>
   set_value_untyped sample_rejected sample_option = (False, sample_option) \<and>
   updates sample_option = 0 \<and>
   updates (reset_to_default sample_option) = 1"
proof -
  have ar: "length [sample_int, sample_string] = length (entries sample_option)"
    by (simp add: sample_option_entries sample_entries_def)
  obtain opt1 where 1: "set_value [sample_int, sample_string] sample_tuples sample_option = Inr opt1"
    using set_value_stores [OF ar] by blast
  obtain opt2 where 2: "set_value_simple [sample_int, sample_string] sample_simple sample_option = Inr opt2"
    unfolding set_value_simple_def using set_value_stores [OF ar] by blast
  obtain opt3 where 3: "set_value_untyped sample_accepted sample_option = (True, opt3)"
    using sample_accepted_validates by (simp add: set_value_untyped_def)
  have 4: "set_value_untyped sample_rejected sample_option = (False, sample_option)"
    using sample_rejected_fails by (simp add: set_value_untyped_def)
  from one_notification_per_mutation [of "[sample_int, sample_string]" sample_tuples sample_option
      opt1 sample_simple opt2 sample_accepted opt3 sample_rejected sample_option] 1 2 3 4
  show ?thesis by (simp add: sample_option_updates)
qed

text \<open>
  C7. Every stored row has exactly \<open>N + 1\<close> cells, \<open>N\<close> being the number of entries fixed
  at construction: this holds of a newly constructed option, and when it holds of an
  option it holds of the option that \<^verbatim>\<open>set_value\<close>, \<^verbatim>\<open>set_value_simple\<close>,
  \<^verbatim>\<open>set_value_untyped\<close> or \<^verbatim>\<open>reset_to_default\<close> leaves, whose entries are the same.
\<close>

theorem rows_invariant_preserved:
  "rows_invariant (compound_option_t nm es type_hint) \<and>
   (rows_invariant opt \<longrightarrow>
      (\<forall>opt'. set_value Args T opt = Inr opt' \<longrightarrow>
          rows_invariant opt' \<and> entries opt' = entries opt) \<and>
      (\<forall>opt'. set_value_simple Args L opt = Inr opt' \<longrightarrow>
          rows_invariant opt' \<and> entries opt' = entries opt) \<and>
      rows_invariant (snd (set_value_untyped V opt)) \<and>
      entries (snd (set_value_untyped V opt)) = entries opt \<and>
      rows_invariant (reset_to_default opt) \<and>
      entries (reset_to_default opt) = entries opt)"
proof -
  have set: "rows_invariant opt' \<and> entries opt' = entries opt"
    if inv: "rows_invariant opt" and s: "set_value Args X opt = Inr opt'" for X opt'
  proof -
    from set_value_Inr [OF s] have ar: "length Args = length (entries opt)"
      and o: "opt' = notify_updated (opt\<lparr>stored := map (serialize_from 0 Args) X\<rparr>)"
      by simp_all
    show ?thesis using inv ar
      by (simp add: o rows_invariant_def notify_updated_def list_all_iff length_serialize_from)
  qed
  have untyped: "rows_invariant (snd (set_value_untyped V opt)) \<and>
      entries (snd (set_value_untyped V opt)) = entries opt" if inv: "rows_invariant opt"
    using inv
    by (auto simp: set_value_untyped_def rows_invariant_def notify_updated_def list_all_iff
        row_validates_def)
  have reset: "rows_invariant (reset_to_default opt) \<and>
      entries (reset_to_default opt) = entries opt" if inv: "rows_invariant opt"
    using inv by (simp add: reset_to_default_def rows_invariant_def notify_updated_def)
  have init: "rows_invariant (compound_option_t nm es type_hint)"
    by (simp add: compound_option_t_def rows_invariant_def)
  show ?thesis
    using init set [of T] set [of "number_tuples 0 L []"] untyped reset
    unfolding set_value_simple_def by blast
qed

theorem rows_invariant_preserved_witness:
  "rows_invariant (compound_option_t ''bindings'' sample_entries ''tuple'') \<and>
   rows_invariant sample_option \<and>
   (\<exists>opt'. set_value [sample_int, sample_string] sample_tuples sample_option = Inr opt' \<and>
       rows_invariant opt' \<and> entries opt' = sample_entries) \<and>
   (\<exists>opt'. set_value_simple [sample_int, sample_string] sample_simple sample_option = Inr opt' \<and>
       rows_invariant opt' \<and> entries opt' = sample_entries) \<and>
   rows_invariant (snd (set_value_untyped sample_accepted sample_option)) \<and>
   stored (snd (set_value_untyped sample_accepted sample_option)) = sample_accepted \<and>
   rows_invariant (reset_to_default sample_option)"
proof -
  have inv: "rows_invariant sample_option"
    by (simp add: rows_invariant_def sample_option_def compound_option_t_def sample_entries_def)
  have ar: "length [sample_int, sample_string] = length (entries sample_option)"
    by (simp add: sample_option_entries sample_entries_def)
  obtain opt1 where 1: "set_value [sample_int, sample_string] sample_tuples sample_option = Inr opt1"
    using set_value_stores [OF ar] by blast
  obtain opt2 where 2: "set_value_simple [sample_int, sample_string] sample_simple sample_option = Inr opt2"
    unfolding set_value_simple_def using set_value_stores [OF ar] by blast
  have 3: "stored (snd (set_value_untyped sample_accepted sample_option)) = sample_accepted"
    using sample_accepted_validates by (simp add: set_value_untyped_def notify_updated_def)
  from rows_invariant_preserved [of "''bindings''" sample_entries "''tuple''" sample_option
      "[sample_int, sample_string]" sample_tuples sample_simple sample_accepted] inv 1 2 3
  show ?thesis by (simp add: sample_option_entries)
qed

text \<open>
  C5. A typed accessor whose type list has not the schema's arity should stop the
  program. \<^verbatim>\<open>set_value\<close> does, at its assertion. \<^verbatim>\<open>get_value\<close> has no such check: on the
  sample option, whose schema has two columns, \<^verbatim>\<open>get_value<int>()\<close> returns normally,
  with tuples of one component.
\<close>

theorem get_value_accepts_wrong_arity:
  "length [sample_int] \<noteq> length (entries sample_option) \<and>
   get_value [sample_int] sample_option = Inr [(''binding1'', [IntV 5]), (''binding2'', [IntV 9])] \<and>
   set_value [sample_int] [(''binding1'', [IntV 5])] sample_option = Inl AssertionFailed"
proof (intro conjI)
  show "length [sample_int] \<noteq> length (entries sample_option)"
    by (simp add: sample_option_entries sample_entries_def)
  then show "set_value [sample_int] [(''binding1'', [IntV 5])] sample_option = Inl AssertionFailed"
    by (rule set_value_fails)
  show "get_value [sample_int] sample_option = Inr [(''binding1'', [IntV 5]), (''binding2'', [IntV 9])]"
    by code_simp
qed

end
